theory Spec2Isabelle
  imports Main "HOL-Library.Word"
begin

section \<open>The downloads page of NepaliWallet: data model\<close>

text \<open>
  The page \<^verbatim>\<open>src/app/dashboard/downloads/page.tsx\<close> keeps a catalog of the files
  in the export folder, previews one of them and deletes them. File names and file
  contents are modelled as byte strings (\<open>string\<close>); a \<^verbatim>\<open>Uint8Array\<close> is a
  list of 8-bit words.
\<close>

type_synonym byte = "8 word"

text \<open>\<^verbatim>\<open>interface FileType { name: string; mtime: number }\<close>\<close>

record FileType =
  name :: string
  mtime :: int

text \<open>The rows that the CSV parser returns: one association list per data row.\<close>

type_synonym csv_row = "(string \<times> string) list"

text \<open>The tagged union \<^verbatim>\<open>PreviewResult\<close> of the source.\<close>

datatype PreviewResult =
    Txt string
  | Csv "csv_row list"
  | Pdf "byte list"
  | Unknown

text \<open>What the host hands back: a rejected promise carries an error value.\<close>

datatype host_error = HostError string

text \<open>
  An entry of \<^verbatim>\<open>readDir\<close> (only \<^verbatim>\<open>name\<close> and \<^verbatim>\<open>isFile\<close> are read by the
  page), the part of \<^verbatim>\<open>stat\<close>'s answer that is read (\<^verbatim>\<open>mtime: Date | null\<close>, as
  epoch milliseconds), and the two shapes \<^verbatim>\<open>readFile\<close>'s answer is tested for.
\<close>

record DirEntry =
  entry_name :: string
  isFile :: bool

record FileInfo =
  info_mtime :: "int option"

datatype file_data = Base64 string | Bytes "byte list"

text \<open>
  The host: the Tauri file-system plugin, over a file system of type \<open>'fs\<close> that the
  page never sees, the flag \<^verbatim>\<open>__TAURI_INTERNALS__\<close>, and the CSV parser of the
  papaparse package, called as \<^verbatim>\<open>Papa.parse(text, {header: true, skipEmptyLines: true}).data\<close>.
  Every call is made with \<^verbatim>\<open>baseDir: BaseDirectory.Document\<close>, and \<^verbatim>\<open>mkdir\<close> with
  \<^verbatim>\<open>recursive: true\<close>; these fixed options are part of the host functions.
\<close>

record 'fs host =
  isTauri :: bool
  exists_h :: "'fs \<Rightarrow> string \<Rightarrow> host_error + bool"
  mkdir_h :: "'fs \<Rightarrow> string \<Rightarrow> host_error + 'fs"
  readDir_h :: "'fs \<Rightarrow> string \<Rightarrow> host_error + DirEntry list"
  stat_h :: "'fs \<Rightarrow> string \<Rightarrow> host_error + FileInfo"
  readTextFile_h :: "'fs \<Rightarrow> string \<Rightarrow> host_error + string"
  readFile_h :: "'fs \<Rightarrow> string \<Rightarrow> host_error + file_data"
  remove_h :: "'fs \<Rightarrow> string \<Rightarrow> host_error + 'fs"
  papaParse :: "string \<Rightarrow> csv_row list"

text \<open>
  The state the page works on: its five \<^verbatim>\<open>useState\<close> cells, the labels written to
  the console, the host's file system, and the browser's blob URL store, which holds
  every object URL that \<^verbatim>\<open>URL.createObjectURL\<close> has handed out and that has not been
  revoked, with the bytes and the media type of its blob.
\<close>

record 'fs world =
  files :: "FileType list"
  loading :: bool
  fileContent :: "PreviewResult option"
  pdfUrl :: string
  fileName :: string
  console :: "string list"
  fs :: 'fs
  blobStore :: "(string \<times> byte list \<times> string) list"
  urlCount :: nat

definition EXPORT_FOLDER :: string where
  "EXPORT_FOLDER = ''NepaliWallet''"

section \<open>Strings\<close>

text \<open>\<^verbatim>\<open>s.split(d)\<close> for a one-character separator: never empty, \<open>''''\<close> gives \<open>['''']\<close>.\<close>

fun js_split :: "char \<Rightarrow> string \<Rightarrow> string list" where
  "js_split d [] = [ [] ]"
| "js_split d (c # cs) =
     (if c = d then [] # js_split d cs
      else (case js_split d cs of
              [] \<Rightarrow> [ [c] ]
            | w # ws \<Rightarrow> (c # w) # ws))"

text \<open>\<^verbatim>\<open>xs.pop()\<close> read for its value: \<^verbatim>\<open>undefined\<close> on an empty array.\<close>

definition pop :: "'a list \<Rightarrow> 'a option" where
  "pop xs = (case xs of [] \<Rightarrow> None | _ \<Rightarrow> Some (last xs))"

text \<open>
  \<^verbatim>\<open>toLowerCase\<close> on bytes: the letters A to Z move to a to z. No character
  outside A to Z has a letter of \<open>txt\<close>, \<open>csv\<close> or \<open>pdf\<close> as its lower case, so the
  comparisons of \<^verbatim>\<open>readAnyFile\<close> see the same on bytes as on UTF-16 code units.
\<close>

definition lower_char :: "char \<Rightarrow> char" where
  "lower_char c =
     (let k = (of_char c :: nat)
      in if 65 \<le> k \<and> k \<le> 90 then char_of (k + 32) else c)"

definition toLowerCase :: "string \<Rightarrow> string" where
  "toLowerCase s = map lower_char s"

text \<open>\<^verbatim>\<open>file.name.split(".").pop()?.toLowerCase()\<close>\<close>

definition ext_of :: "string \<Rightarrow> string option" where
  "ext_of n = map_option toLowerCase (pop (js_split (CHR ''.'') n))"

section \<open>Base64\<close>

text \<open>
  \<^verbatim>\<open>atob\<close> is the forgiving-base64 decode of the HTML standard: ASCII whitespace is
  dropped; if the length is then a multiple of four, one or two closing \<open>=\<close> are dropped;
  a length of 1 modulo 4 or a character outside the alphabet is an
  \<^verbatim>\<open>InvalidCharacterError\<close>; every four characters give three bytes, and a last
  group of two or three characters gives one or two bytes, its spare bits discarded.
  The result is a string whose characters are the bytes.
\<close>

definition b64_val :: "char \<Rightarrow> nat option" where
  "b64_val c =
     (let k = (of_char c :: nat)
      in if 65 \<le> k \<and> k \<le> 90 then Some (k - 65)
         else if 97 \<le> k \<and> k \<le> 122 then Some (k - 71)
         else if 48 \<le> k \<and> k \<le> 57 then Some (k + 4)
         else if k = 43 then Some 62
         else if k = 47 then Some 63
         else None)"

definition is_ascii_space :: "char \<Rightarrow> bool" where
  "is_ascii_space c = ((of_char c :: nat) \<in> {9, 10, 12, 13, 32})"

definition strip_padding :: "string \<Rightarrow> string" where
  "strip_padding s =
     (if length s mod 4 = 0 then
        (case rev s of
           a # b # r \<Rightarrow>
             if a = CHR ''='' \<and> b = CHR ''='' then rev r
             else if a = CHR ''='' then rev (b # r)
             else s
         | _ \<Rightarrow> s)
      else s)"

fun decode_sextets :: "nat list \<Rightarrow> nat list" where
  "decode_sextets (a # b # c # d # r) =
     (let n = a * 262144 + b * 4096 + c * 64 + d
      in n div 65536 # n div 256 mod 256 # n mod 256 # decode_sextets r)"
| "decode_sextets [a, b, c] =
     (let n = a * 4096 + b * 64 + c
      in [n div 1024, n div 4 mod 256])"
| "decode_sextets [a, b] = [(a * 64 + b) div 16]"
| "decode_sextets _ = []"

fun those_vals :: "'a option list \<Rightarrow> 'a list option" where
  "those_vals [] = Some []"
| "those_vals (None # _) = None"
| "those_vals (Some x # xs) = map_option ((#) x) (those_vals xs)"

definition atob :: "string \<Rightarrow> string option" where
  "atob s =
     (let d = strip_padding (filter (\<lambda>c. \<not> is_ascii_space c) s)
      in if length d mod 4 = 1 then None
         else map_option (\<lambda>vs. map char_of (decode_sextets vs))
                (those_vals (map b64_val d)))"

text \<open>
  The loop \<^verbatim>\<open>for (let i = 0; i < raw.length; i++) arr[i] = raw.charCodeAt(i)\<close> on
  \<^verbatim>\<open>arr = new Uint8Array(raw.length)\<close>: a store into a \<^verbatim>\<open>Uint8Array\<close> keeps the
  low eight bits, and one outside the array is ignored.
\<close>

function copy_codes :: "string \<Rightarrow> byte list \<Rightarrow> nat \<Rightarrow> byte list" where
  "copy_codes raw arr i =
     (if i < length raw
      then copy_codes raw (if i < length arr then arr[i := of_nat (of_char (raw ! i))] else arr) (Suc i)
      else arr)"
  by pat_completeness auto
termination
  by (relation "measure (\<lambda>(raw, arr, i). length raw - i)") auto

declare copy_codes.simps [simp del]

text \<open>Lines 82 to 94: the bytes of what \<^verbatim>\<open>readFile\<close> returned, or the exception of \<^verbatim>\<open>atob\<close>.\<close>

definition normalize_binary :: "file_data \<Rightarrow> host_error + byte list" where
  "normalize_binary binary =
     (case binary of
        Base64 s \<Rightarrow>
          (case atob s of
             None \<Rightarrow> Inl (HostError ''InvalidCharacterError'')
           | Some raw \<Rightarrow> Inr (copy_codes raw (replicate (length raw) 0) 0))
      | Bytes b \<Rightarrow> Inr b)"

section \<open>Opening a file\<close>

text \<open>
  A step of the \<^verbatim>\<open>try\<close> block either completes with the state it reached or throws
  from the state it reached.
\<close>

datatype 's outcome = Done 's | Thrown 's host_error

definition and_then :: "'s outcome \<Rightarrow> ('s \<Rightarrow> 's outcome) \<Rightarrow> 's outcome" where
  "and_then r f = (case r of Done s \<Rightarrow> f s | Thrown s e \<Rightarrow> Thrown s e)"

text \<open>
  \<^verbatim>\<open>URL.createObjectURL(blob)\<close> registers the blob in the store under a URL that no
  earlier call has returned; the URL is never the empty string.
\<close>

definition createObjectURL ::
  "byte list \<times> string \<Rightarrow> 'fs world \<Rightarrow> string \<times> 'fs world" where
  "createObjectURL blob w =
     (let url = ''blob:'' @ replicate (urlCount w) (CHR ''1'')
      in (url, w\<lparr>blobStore := blobStore w @ [(url, blob)], urlCount := Suc (urlCount w)\<rparr>))"

definition txt_branch :: "'fs host \<Rightarrow> string \<Rightarrow> 'fs world \<Rightarrow> 'fs world outcome" where
  "txt_branch h filePath w =
     (case readTextFile_h h (fs w) filePath of
        Inl e \<Rightarrow> Thrown w e
      | Inr text \<Rightarrow> Done (w\<lparr>fileContent := Some (Txt text)\<rparr>))"

definition csv_branch :: "'fs host \<Rightarrow> string \<Rightarrow> 'fs world \<Rightarrow> 'fs world outcome" where
  "csv_branch h filePath w =
     (case readTextFile_h h (fs w) filePath of
        Inl e \<Rightarrow> Thrown w e
      | Inr csvText \<Rightarrow> Done (w\<lparr>fileContent := Some (Csv (papaParse h csvText))\<rparr>))"

definition pdf_branch :: "'fs host \<Rightarrow> string \<Rightarrow> 'fs world \<Rightarrow> 'fs world outcome" where
  "pdf_branch h filePath w =
     (case readFile_h h (fs w) filePath of
        Inl e \<Rightarrow> Thrown w e
      | Inr binary \<Rightarrow>
          (case normalize_binary binary of
             Inl e \<Rightarrow> Thrown w e
           | Inr uint8 \<Rightarrow>
               (let (url, w') = createObjectURL (uint8, ''application/pdf'') w
                in Done (w'\<lparr>pdfUrl := url\<rparr>))))"

text \<open>The body of the \<^verbatim>\<open>try\<close> block of \<^verbatim>\<open>readAnyFile\<close>: three tests in a row.\<close>

definition try_read :: "'fs host \<Rightarrow> string option \<Rightarrow> string \<Rightarrow> 'fs world \<Rightarrow> 'fs world outcome" where
  "try_read h ext filePath w =
     and_then
       (and_then
          (if ext = Some ''txt'' then txt_branch h filePath w else Done w)
          (\<lambda>w. if ext = Some ''csv'' then csv_branch h filePath w else Done w))
       (\<lambda>w. if ext = Some ''pdf'' then pdf_branch h filePath w else Done w)"

text \<open>\<^verbatim>\<open>`${EXPORT_FOLDER}/${file.name}`\<close>\<close>

definition filePath_of :: "string \<Rightarrow> string" where
  "filePath_of n = EXPORT_FOLDER @ ''/'' @ n"

text \<open>
  The two \<^verbatim>\<open>return\<close> statements of \<^verbatim>\<open>readAnyFile\<close>: the one that ends the
  \<^verbatim>\<open>try\<close> block and the one of the \<^verbatim>\<open>catch\<close> clause, which logs first.
\<close>

definition catch_read :: "'fs world outcome \<Rightarrow> PreviewResult \<times> 'fs world" where
  "catch_read r =
     (case r of
        Done w \<Rightarrow> (Unknown, w)
      | Thrown w e \<Rightarrow> (Unknown, w\<lparr>console := console w @ [''File read failed:'']\<rparr>))"

text \<open>\<^verbatim>\<open>readAnyFile\<close>: the value it returns and the state it leaves.\<close>

definition readAnyFile :: "'fs host \<Rightarrow> FileType \<Rightarrow> 'fs world \<Rightarrow> PreviewResult \<times> 'fs world" where
  "readAnyFile h file w =
     (let ext = ext_of (name file);
          filePath = filePath_of (name file)
      in catch_read (try_read h ext filePath w))"

definition openFile :: "'fs host \<Rightarrow> FileType \<Rightarrow> 'fs world \<Rightarrow> 'fs world" where
  "openFile h file w =
     snd (readAnyFile h file (w\<lparr>pdfUrl := '''', fileContent := None, fileName := name file\<rparr>))"

text \<open>The handler of the close button of the preview.\<close>

definition closePreview :: "'fs world \<Rightarrow> 'fs world" where
  "closePreview w = w\<lparr>pdfUrl := '''', fileContent := None, fileName := ''''\<rparr>"

section \<open>The CSV parser\<close>

text \<open>
  Modelled from the spec: the function \<^verbatim>\<open>Papa.parse\<close> of the papaparse package,
  which the page calls with \<^verbatim>\<open>header: true\<close> and \<^verbatim>\<open>skipEmptyLines: true\<close>, is not
  among the sources. The specification has it parse comma-delimited text with the
  first line treated as header, skip fully empty lines, and produce one mapping per
  data row, keyed by header name in column order, the values kept as strings. Quoting,
  other delimiters and other line ends are outside what the specification says.
\<close>

definition Papa_parse :: "string \<Rightarrow> csv_row list" where
  "Papa_parse text =
     (case filter (\<lambda>l. l \<noteq> []) (js_split (CHR 0x0A) text) of
        [] \<Rightarrow> []
      | header # rows \<Rightarrow>
          map (\<lambda>l. zip (js_split (CHR '','') header) (js_split (CHR '','') l)) rows)"

section \<open>A host for the examples\<close>

text \<open>
  A small file system in memory, used where a statement is instantiated: the folders
  that exist, the listing of the export folder, and the metadata and the bytes of the
  paths that can be read.
\<close>

record disk =
  folders :: "string list"
  listing :: "(string \<times> bool) list"
  meta :: "(string \<times> int option) list"
  data :: "(string \<times> string) list"

definition disk_host :: "disk host" where
  "disk_host =
     \<lparr>isTauri = True,
      exists_h = (\<lambda>d p. Inr (p \<in> set (folders d))),
      mkdir_h = (\<lambda>d p. Inr (d\<lparr>folders := p # folders d\<rparr>)),
      readDir_h = (\<lambda>d p.
        if p \<in> set (folders d)
        then Inr (map (\<lambda>(n, f). \<lparr>entry_name = n, isFile = f\<rparr>) (listing d))
        else Inl (HostError ''no such directory'')),
      stat_h = (\<lambda>d p.
        case map_of (meta d) p of
          None \<Rightarrow> Inl (HostError ''no metadata'')
        | Some m \<Rightarrow> Inr \<lparr>info_mtime = m\<rparr>),
      readTextFile_h = (\<lambda>d p.
        case map_of (data d) p of
          None \<Rightarrow> Inl (HostError ''no such file'')
        | Some c \<Rightarrow> Inr c),
      readFile_h = (\<lambda>d p.
        case map_of (data d) p of
          None \<Rightarrow> Inl (HostError ''no such file'')
        | Some c \<Rightarrow> Inr (Bytes (map (\<lambda>x. of_nat (of_char x)) c))),
      remove_h = (\<lambda>d p.
        case map_of (data d) p of
          None \<Rightarrow> Inl (HostError ''no such file'')
        | Some c \<Rightarrow> Inr (d\<lparr>data := filter (\<lambda>(q, _). q \<noteq> p) (data d)\<rparr>)),
      papaParse = Papa_parse\<rparr>"

text \<open>The page as it is mounted, on a given file system.\<close>

definition initial :: "'fs \<Rightarrow> 'fs world" where
  "initial d =
     \<lparr>files = [], loading = False, fileContent = None, pdfUrl = '''', fileName = '''',
      console = [], fs = d, blobStore = [], urlCount = 0\<rparr>"

definition disk1 :: disk where
  "disk1 =
     \<lparr>folders = [''NepaliWallet''],
      listing = [(''a.txt'', True), (''b.csv'', True), (''c.pdf'', True), (''d.txt'', True),
                 (''TXT'', True), (''old'', False)],
      meta = [(''NepaliWallet/a.txt'', Some 100), (''NepaliWallet/b.csv'', Some 200),
              (''NepaliWallet/c.pdf'', Some 50), (''NepaliWallet/d.txt'', Some 100),
              (''NepaliWallet/TXT'', None)],
      data = [(''NepaliWallet/a.txt'', ''hello''), (''NepaliWallet/b.csv'',
               ''name,age'' @ [CHR 0x0A] @ ''Alice,30'' @ [CHR 0x0A, CHR 0x0A] @ ''Bob,25'' @ [CHR 0x0A]),
              (''NepaliWallet/c.pdf'', ''%PDF''), (''NepaliWallet/TXT'', ''plain'')]\<rparr>"

section \<open>The preview kinds of the specification\<close>

text \<open>
  Following the specification's words: the kind is a function of the lowercased suffix
  after the last \<open>.\<close> of the name, \<open>txt\<close> to text, \<open>csv\<close> to tabular, \<open>pdf\<close> to
  binaryResource, anything else to unsupported. The suffix after the last \<open>.\<close> is
  read from the end of the name up to the first \<open>.\<close> met.
\<close>

datatype kind = Text | Tabular | BinaryResource | Unsupported

definition classify_suffix :: "string \<Rightarrow> kind" where
  "classify_suffix s =
     (if s = ''txt'' then Text
      else if s = ''csv'' then Tabular
      else if s = ''pdf'' then BinaryResource
      else Unsupported)"

definition suffix_after_last_dot :: "string \<Rightarrow> string" where
  "suffix_after_last_dot n = rev (takeWhile (\<lambda>c. c \<noteq> CHR ''.'') (rev n))"

definition classify :: "string \<Rightarrow> kind" where
  "classify n = classify_suffix (toLowerCase (suffix_after_last_dot n))"

section \<open>Listing the export folder\<close>

text \<open>
  \<^verbatim>\<open>Array.prototype.sort\<close> with a comparison function: the sort is stable, and an
  element \<open>a\<close> comes before \<open>b\<close> when \<open>cmp a b < 0\<close>. For a consistent comparison
  function the result does not depend on the algorithm; it is computed here by
  insertion, each element going in front of the first one it does not come after.
\<close>

fun insert_sorted :: "('a \<Rightarrow> 'a \<Rightarrow> int) \<Rightarrow> 'a \<Rightarrow> 'a list \<Rightarrow> 'a list" where
  "insert_sorted cmp x [] = [x]"
| "insert_sorted cmp x (y # ys) =
     (if cmp x y \<le> 0 then x # y # ys else y # insert_sorted cmp x ys)"

fun js_sort :: "('a \<Rightarrow> 'a \<Rightarrow> int) \<Rightarrow> 'a list \<Rightarrow> 'a list" where
  "js_sort cmp [] = []"
| "js_sort cmp (x # xs) = insert_sorted cmp x (js_sort cmp xs)"

text \<open>The comparison function \<^verbatim>\<open>(a, b) => b.mtime - a.mtime\<close>.\<close>

definition by_mtime :: "FileType \<Rightarrow> FileType \<Rightarrow> int" where
  "by_mtime a b = mtime b - mtime a"

text \<open>
  The function mapped over the entries: \<^verbatim>\<open>null\<close> for an entry that is not a file,
  a rejection when \<^verbatim>\<open>stat\<close> rejects, and otherwise the name with
  \<^verbatim>\<open>stats.mtime?.getTime() ?? 0\<close>.
\<close>

definition stat_entry :: "'fs host \<Rightarrow> 'fs \<Rightarrow> DirEntry \<Rightarrow> host_error + FileType option" where
  "stat_entry h d entry =
     (if isFile entry then
        (case stat_h h d (filePath_of (entry_name entry)) of
           Inl e \<Rightarrow> Inl e
         | Inr stats \<Rightarrow>
             Inr (Some \<lparr>name = entry_name entry,
                        mtime = (case info_mtime stats of Some t \<Rightarrow> t | None \<Rightarrow> 0)\<rparr>))
      else Inr None)"

text \<open>
  \<^verbatim>\<open>Promise.all\<close>: all the values, in the order of the promises, or a rejection as
  soon as one promise rejects. Which rejection comes first is a matter of timing; the
  one reported here is the first in the list, and \<^verbatim>\<open>loadFiles\<close> uses none of it but
  the fact.
\<close>

fun promise_all :: "(host_error + 'a) list \<Rightarrow> host_error + 'a list" where
  "promise_all [] = Inr []"
| "promise_all (Inl e # ps) = Inl e"
| "promise_all (Inr v # ps) =
     (case promise_all ps of Inl e \<Rightarrow> Inl e | Inr vs \<Rightarrow> Inr (v # vs))"

text \<open>\<^verbatim>\<open>fileObjects.filter(Boolean)\<close>\<close>

fun filter_Boolean :: "'a option list \<Rightarrow> 'a list" where
  "filter_Boolean [] = []"
| "filter_Boolean (None # xs) = filter_Boolean xs"
| "filter_Boolean (Some x # xs) = x # filter_Boolean xs"

text \<open>The \<^verbatim>\<open>try\<close> block of \<^verbatim>\<open>loadFiles\<close> and its \<^verbatim>\<open>catch\<close> clause.\<close>

definition try_list :: "'fs host \<Rightarrow> 'fs world \<Rightarrow> 'fs world outcome" where
  "try_list h w =
     (case readDir_h h (fs w) EXPORT_FOLDER of
        Inl e \<Rightarrow> Thrown w e
      | Inr entries \<Rightarrow>
          (case promise_all (map (stat_entry h (fs w)) entries) of
             Inl e \<Rightarrow> Thrown w e
           | Inr fileObjects \<Rightarrow>
               Done (w\<lparr>files := js_sort by_mtime (filter_Boolean fileObjects)\<rparr>)))"

definition loadFiles :: "'fs host \<Rightarrow> 'fs world \<Rightarrow> 'fs world" where
  "loadFiles h w =
     (if isTauri h then
        (let w1 = w\<lparr>loading := True\<rparr>;
             w2 = (case try_list h w1 of
                     Done w' \<Rightarrow> w'
                   | Thrown w' e \<Rightarrow>
                       w'\<lparr>console := console w' @ [''Error listing files''], files := []\<rparr>)
         in w2\<lparr>loading := False\<rparr>)
      else w)"

text \<open>
  The entries of a listing that are files, in the order of the enumeration, each with
  the modification time that \<^verbatim>\<open>stat\<close> reports for it.
\<close>

definition entry_mtime :: "'fs host \<Rightarrow> 'fs \<Rightarrow> DirEntry \<Rightarrow> int" where
  "entry_mtime h d entry =
     (case stat_h h d (filePath_of (entry_name entry)) of
        Inl e \<Rightarrow> 0
      | Inr stats \<Rightarrow> (case info_mtime stats of Some t \<Rightarrow> t | None \<Rightarrow> 0))"

definition enumerated :: "'fs host \<Rightarrow> 'fs \<Rightarrow> DirEntry list \<Rightarrow> FileType list" where
  "enumerated h d entries =
     map (\<lambda>entry. \<lparr>name = entry_name entry, mtime = entry_mtime h d entry\<rparr>)
       (filter isFile entries)"

definition stat_fails :: "'fs host \<Rightarrow> 'fs \<Rightarrow> DirEntry \<Rightarrow> bool" where
  "stat_fails h d entry =
     (case stat_h h d (filePath_of (entry_name entry)) of Inl e \<Rightarrow> True | Inr stats \<Rightarrow> False)"

definition newest_first :: "FileType list \<Rightarrow> bool" where
  "newest_first xs = sorted_wrt (\<lambda>a b. mtime b \<le> mtime a) xs"

text \<open>The listing of the export folder of \<open>disk1\<close>.\<close>

definition entries1 :: "DirEntry list" where
  "entries1 =
     [\<lparr>entry_name = ''a.txt'', isFile = True\<rparr>, \<lparr>entry_name = ''b.csv'', isFile = True\<rparr>,
      \<lparr>entry_name = ''c.pdf'', isFile = True\<rparr>, \<lparr>entry_name = ''d.txt'', isFile = True\<rparr>,
      \<lparr>entry_name = ''TXT'', isFile = True\<rparr>, \<lparr>entry_name = ''old'', isFile = False\<rparr>]"

text \<open>
  The export folder of \<open>disk1\<close> after the metadata of \<open>b.csv\<close> has become unreadable.
\<close>

definition disk2 :: disk where
  "disk2 = disk1\<lparr>meta := filter (\<lambda>(p, m). p \<noteq> ''NepaliWallet/b.csv'') (meta disk1)\<rparr>"

section \<open>Deleting a file and ensuring the folder\<close>

text \<open>
  \<^verbatim>\<open>deleteFile\<close>: outside Tauri nothing happens; a removal that succeeds takes the
  entries of that name out of the catalog, one that fails is logged.
\<close>

definition deleteFile :: "'fs host \<Rightarrow> FileType \<Rightarrow> 'fs world \<Rightarrow> 'fs world" where
  "deleteFile h file w =
     (if isTauri h then
        (case remove_h h (fs w) (filePath_of (name file)) of
           Inl e \<Rightarrow> w\<lparr>console := console w @ [''Error deleting file'']\<rparr>
         | Inr d \<Rightarrow> w\<lparr>fs := d, files := filter (\<lambda>f. name f \<noteq> name file) (files w)\<rparr>)
      else w)"

text \<open>
  \<^verbatim>\<open>ensureFolderExists\<close>: the folder is created when \<^verbatim>\<open>exists\<close> answers no; a
  rejection of \<^verbatim>\<open>exists\<close> or of \<^verbatim>\<open>mkdir\<close> is caught and logged as a warning.
\<close>

definition ensureFolderExists :: "'fs host \<Rightarrow> 'fs world \<Rightarrow> 'fs world" where
  "ensureFolderExists h w =
     (case exists_h h (fs w) EXPORT_FOLDER of
        Inl e \<Rightarrow> w\<lparr>console := console w @ [''Folder creation failed:'']\<rparr>
      | Inr folderExists \<Rightarrow>
          if \<not> folderExists then
            (case mkdir_h h (fs w) EXPORT_FOLDER of
               Inl e \<Rightarrow> w\<lparr>console := console w @ [''Folder creation failed:'']\<rparr>
             | Inr d \<Rightarrow> w\<lparr>fs := d\<rparr>)
          else w)"

section \<open>Sequences of opening and closing\<close>

datatype action = Open FileType | Close

fun step :: "'fs host \<Rightarrow> action \<Rightarrow> 'fs world \<Rightarrow> 'fs world" where
  "step h (Open file) w = openFile h file w"
| "step h Close w = closePreview w"

fun run :: "'fs host \<Rightarrow> action list \<Rightarrow> 'fs world \<Rightarrow> 'fs world" where
  "run h [] w = w"
| "run h (a # as) w = run h as (step h a w)"

text \<open>A catalog whose last file has been removed behind the page's back, and a disk with no export folder.\<close>

definition catalog1 :: "FileType list" where
  "catalog1 =
     [\<lparr>name = ''b.csv'', mtime = 200\<rparr>, \<lparr>name = ''a.txt'', mtime = 100\<rparr>,
      \<lparr>name = ''gone.txt'', mtime = 70\<rparr>]"

definition disk0 :: disk where
  "disk0 = \<lparr>folders = [], listing = [], meta = [], data = []\<rparr>"

section \<open>The base64 encoding\<close>

text \<open>
  The base64 encoding of a byte sequence, with padding, as a host that answers
  \<^verbatim>\<open>readFile\<close> with a string would send it: three bytes give four characters of
  the alphabet \<open>A\<close> to \<open>Z\<close>, \<open>a\<close> to \<open>z\<close>, \<open>0\<close> to \<open>9\<close>, \<open>+\<close>, \<open>/\<close>; one or two
  bytes left over give two or three characters and \<open>==\<close> or \<open>=\<close>.
\<close>

fun encode_sextets :: "byte list \<Rightarrow> nat list" where
  "encode_sextets (a # b # c # r) =
     (let n = unat a * 65536 + unat b * 256 + unat c
      in n div 262144 # n div 4096 mod 64 # n div 64 mod 64 # n mod 64 # encode_sextets r)"
| "encode_sextets [a, b] =
     (let n = unat a * 1024 + unat b * 4
      in [n div 4096, n div 64 mod 64, n mod 64])"
| "encode_sextets [a] =
     (let n = unat a * 16
      in [n div 64, n mod 64])"
| "encode_sextets [] = []"

definition b64_char :: "nat \<Rightarrow> char" where
  "b64_char v =
     (if v < 26 then char_of (v + 65)
      else if v < 52 then char_of (v + 71)
      else if v < 62 then char_of (v - 4)
      else if v = 62 then CHR ''+''
      else CHR ''/'')"

fun padding :: "byte list \<Rightarrow> string" where
  "padding (a # b # c # r) = padding r"
| "padding [a, b] = ''=''"
| "padding [a] = ''==''"
| "padding [] = []"

definition base64 :: "byte list \<Rightarrow> string" where
  "base64 b = map b64_char (encode_sextets b) @ padding b"

text \<open>The example host again, answering \<^verbatim>\<open>readFile\<close> with base64 strings.\<close>

definition base64_host :: "disk host" where
  "base64_host =
     disk_host\<lparr>readFile_h := (\<lambda>d p.
        case map_of (data d) p of
          None \<Rightarrow> Inl (HostError ''no such file'')
        | Some c \<Rightarrow> Inr (Base64 (base64 (map (\<lambda>x. of_nat (of_char x)) c))))\<rparr>"

section \<open>Texts made of lines and cells\<close>

text \<open>
  The text whose pieces, between separators \<open>d\<close>, are the given ones: a line of cells
  for \<open>d\<close> the comma, a text of lines for \<open>d\<close> the line feed.
\<close>

fun join :: "char \<Rightarrow> string list \<Rightarrow> string" where
  "join d [] = []"
| "join d [x] = x"
| "join d (x # y # ys) = x @ d # join d (y # ys)"

section \<open>Splitting a name\<close>

lemma js_split_nonempty: "js_split d s \<noteq> []"
  by (induction s) (auto split: list.splits)

lemma js_split_no_sep: "d \<notin> set s \<Longrightarrow> js_split d s = [s]"
  by (induction s) auto

lemma js_split_append:
  "js_split d (a @ d # b) = js_split d a @ js_split d b"
proof (induction a)
  case Nil
  show ?case by simp
next
  case (Cons c a)
  obtain w ws where w: "js_split d a = w # ws"
    using js_split_nonempty [of d a] by (cases "js_split d a") auto
  show ?case using Cons w by simp
qed

lemma last_js_split_append:
  "d \<notin> set suf \<Longrightarrow> last (js_split d (pre @ d # suf)) = suf"
  by (simp add: js_split_append js_split_no_sep)

lemma takeWhile_upto_sep:
  "d \<notin> set a \<Longrightarrow> takeWhile (\<lambda>c. c \<noteq> d) (a @ d # b) = a"
  by (induction a) auto

lemma last_js_split_takeWhile:
  "last (js_split d s) = rev (takeWhile (\<lambda>c. c \<noteq> d) (rev s))"
proof (cases "d \<in> set s")
  case False
  have tw: "takeWhile (\<lambda>c. c \<noteq> d) (rev s) = rev s"
    by (rule takeWhile_eq_all_conv [THEN iffD2]) (use False in auto)
  show ?thesis by (simp add: tw js_split_no_sep False)
next
  case True
  then have "d \<in> set (rev s)" by simp
  then obtain a b where ab: "rev s = a @ d # b" "d \<notin> set a"
    by (meson split_list_first)
  then have s: "s = rev b @ d # rev a"
    by (metis rev_append rev.simps(2) rev_rev_ident append.assoc append_Cons append_Nil)
  have "takeWhile (\<lambda>c. c \<noteq> d) (rev s) = a"
    by (simp add: ab takeWhile_upto_sep)
  moreover have "last (js_split d s) = rev a"
    unfolding s using ab(2) by (simp add: last_js_split_append)
  ultimately show ?thesis by simp
qed

lemma ext_of_eq: "ext_of n = Some (toLowerCase (last (js_split (CHR ''.'') n)))"
  by (simp add: ext_of_def pop_def js_split_nonempty split: list.split)

lemma ext_of_suffix: "ext_of n = Some (toLowerCase (suffix_after_last_dot n))"
  by (simp add: ext_of_eq last_js_split_takeWhile suffix_after_last_dot_def)

section \<open>The three tests of the try block\<close>

lemma and_then_Done: "and_then r Done = r"
  by (cases r) (simp_all add: and_then_def)

lemma Done_and_then: "and_then (Done w) f = f w"
  by (simp add: and_then_def)

lemma try_read_txt: "try_read h (Some ''txt'') p w = txt_branch h p w"
  by (simp add: try_read_def and_then_Done)

lemma try_read_csv: "try_read h (Some ''csv'') p w = csv_branch h p w"
  by (simp add: try_read_def and_then_Done Done_and_then)

lemma try_read_pdf: "try_read h (Some ''pdf'') p w = pdf_branch h p w"
  by (simp add: try_read_def Done_and_then)

lemma try_read_other:
  "e \<noteq> ''txt'' \<Longrightarrow> e \<noteq> ''csv'' \<Longrightarrow> e \<noteq> ''pdf'' \<Longrightarrow> try_read h (Some e) p w = Done w"
  by (simp add: try_read_def Done_and_then)

lemma readAnyFile_dispatch:
  "readAnyFile h file w =
     (case classify_suffix (toLowerCase (suffix_after_last_dot (name file))) of
        Text \<Rightarrow> catch_read (txt_branch h (filePath_of (name file)) w)
      | Tabular \<Rightarrow> catch_read (csv_branch h (filePath_of (name file)) w)
      | BinaryResource \<Rightarrow> catch_read (pdf_branch h (filePath_of (name file)) w)
      | Unsupported \<Rightarrow> (Unknown, w))"
  by (simp add: readAnyFile_def ext_of_suffix classify_suffix_def try_read_txt try_read_csv
      try_read_pdf try_read_other catch_read_def)

lemmas char_eval = char_of_def bit_Suc_0_iff toLowerCase_def lower_char_def

section \<open>What readAnyFile returns\<close>

text \<open>
  C9. Whatever the file and whatever the host answers, \<^verbatim>\<open>readAnyFile\<close> returns the
  \<^verbatim>\<open>unknown\<close> variant: after a text, CSV or PDF branch that succeeded, after no
  branch, and after an exception. The preview reaches the page through the state
  only: a text file that was read leaves its text in \<^verbatim>\<open>fileContent\<close>, a CSV file
  its parsed rows, and a PDF file leaves in \<^verbatim>\<open>pdfUrl\<close> the URL under which its
  bytes were registered.
\<close>

theorem readAnyFile_returns_unknown:
  "fst (readAnyFile h file w) = Unknown \<and>
   (ext_of (name file) = Some ''txt'' \<and>
    readTextFile_h h (fs w) (filePath_of (name file)) = Inr t \<longrightarrow>
      fileContent (snd (readAnyFile h file w)) = Some (Txt t)) \<and>
   (ext_of (name file) = Some ''csv'' \<and>
    readTextFile_h h (fs w) (filePath_of (name file)) = Inr t \<longrightarrow>
      fileContent (snd (readAnyFile h file w)) = Some (Csv (papaParse h t))) \<and>
   (ext_of (name file) = Some ''pdf'' \<and>
    readFile_h h (fs w) (filePath_of (name file)) = Inr binary \<and>
    normalize_binary binary = Inr uint8 \<longrightarrow>
      (pdfUrl (snd (readAnyFile h file w)), uint8, ''application/pdf'')
        \<in> set (blobStore (snd (readAnyFile h file w))))"
proof -
  have "fst (readAnyFile h file w) = Unknown"
    by (simp add: readAnyFile_def catch_read_def split: outcome.split)
  moreover have "fileContent (snd (readAnyFile h file w)) = Some (Txt t)"
    if "ext_of (name file) = Some ''txt''"
      and "readTextFile_h h (fs w) (filePath_of (name file)) = Inr t"
    using that by (simp add: readAnyFile_def try_read_txt txt_branch_def catch_read_def)
  moreover have "fileContent (snd (readAnyFile h file w)) = Some (Csv (papaParse h t))"
    if "ext_of (name file) = Some ''csv''"
      and "readTextFile_h h (fs w) (filePath_of (name file)) = Inr t"
    using that by (simp add: readAnyFile_def try_read_csv csv_branch_def catch_read_def)
  moreover have "(pdfUrl (snd (readAnyFile h file w)), uint8, ''application/pdf'')
        \<in> set (blobStore (snd (readAnyFile h file w)))"
    if "ext_of (name file) = Some ''pdf''"
      and "readFile_h h (fs w) (filePath_of (name file)) = Inr binary"
      and "normalize_binary binary = Inr uint8"
    using that
    by (simp add: readAnyFile_def try_read_pdf pdf_branch_def catch_read_def
        createObjectURL_def Let_def)
  ultimately show ?thesis by blast
qed

theorem readAnyFile_returns_unknown_witness:
  "fst (readAnyFile disk_host \<lparr>name = ''a.txt'', mtime = 100\<rparr> (initial disk1)) = Unknown \<and>
   ext_of ''a.txt'' = Some ''txt'' \<and>
   readTextFile_h disk_host disk1 (filePath_of ''a.txt'') = Inr ''hello'' \<and>
   fileContent (snd (readAnyFile disk_host \<lparr>name = ''a.txt'', mtime = 100\<rparr> (initial disk1)))
     = Some (Txt ''hello'')"
proof -
  have e: "ext_of ''a.txt'' = Some ''txt''"
    by (simp add: ext_of_def pop_def char_eval)
  have r: "readTextFile_h disk_host (fs (initial disk1)) (filePath_of ''a.txt'') = Inr ''hello''"
    by (simp add: disk_host_def initial_def disk1_def filePath_of_def EXPORT_FOLDER_def)
  show ?thesis
    using readAnyFile_returns_unknown
      [of disk_host "\<lparr>name = ''a.txt'', mtime = 100\<rparr>" "initial disk1" "''hello''"] e r
    by (simp add: initial_def)
qed

section \<open>The kind of preview\<close>

text \<open>
  C4. For every file name, \<^verbatim>\<open>readAnyFile\<close> runs the branch that the specification's
  \<open>classify\<close> names: the text branch for the lowercased suffix \<open>txt\<close>, the tabular
  branch for \<open>csv\<close>, the binary branch for \<open>pdf\<close>, and no branch at all for any
  other suffix. The choice is a function of the name alone: neither the host nor the
  state, and so no byte of the file, takes part in it. For a name \<open>pre.suf\<close> with no
  \<open>.\<close> in \<open>suf\<close>, the suffix that is classified is \<open>suf\<close>.
\<close>

theorem preview_kind_by_suffix:
  "readAnyFile h file w =
     (case classify (name file) of
        Text \<Rightarrow> catch_read (txt_branch h (filePath_of (name file)) w)
      | Tabular \<Rightarrow> catch_read (csv_branch h (filePath_of (name file)) w)
      | BinaryResource \<Rightarrow> catch_read (pdf_branch h (filePath_of (name file)) w)
      | Unsupported \<Rightarrow> (Unknown, w)) \<and>
   (CHR ''.'' \<notin> set suf \<longrightarrow>
      classify (pre @ CHR ''.'' # suf) = classify_suffix (toLowerCase suf))"
proof -
  have "suffix_after_last_dot (pre @ CHR ''.'' # suf) = suf" if "CHR ''.'' \<notin> set suf"
    using that by (simp add: suffix_after_last_dot_def takeWhile_upto_sep)
  then show ?thesis
    by (simp add: readAnyFile_dispatch classify_def)
qed

theorem preview_kind_by_suffix_witness:
  "CHR ''.'' \<notin> set ''TXT'' \<and>
   classify ''report.v2.TXT'' = Text \<and>
   readAnyFile disk_host \<lparr>name = ''report.v2.TXT'', mtime = 0\<rparr> (initial disk1) =
     catch_read (txt_branch disk_host (filePath_of ''report.v2.TXT'') (initial disk1))"
proof -
  have c: "classify_suffix (toLowerCase ''TXT'') = Text"
    by (simp add: classify_suffix_def char_eval)
  show ?thesis
    using preview_kind_by_suffix
      [of disk_host "\<lparr>name = ''report.v2.TXT'', mtime = 0\<rparr>" "initial disk1" "''TXT''" "''report.v2''"] c
    by simp
qed

section \<open>Names without a dot\<close>

text \<open>
  C10. For a file name with no \<open>.\<close> in it, the extension that \<^verbatim>\<open>readAnyFile\<close>
  compares is the whole name in lower case. So a file whose whole name is \<open>txt\<close>,
  \<open>csv\<close> or \<open>pdf\<close>, in any mix of cases, is read by the text, the CSV or the PDF
  branch, and is not left without a preview.
\<close>

theorem dotless_name_is_extension:
  assumes "CHR ''.'' \<notin> set (name file)"
  shows "ext_of (name file) = Some (toLowerCase (name file)) \<and>
    (toLowerCase (name file) = ''txt'' \<longrightarrow>
       readAnyFile h file w = catch_read (txt_branch h (filePath_of (name file)) w)) \<and>
    (toLowerCase (name file) = ''csv'' \<longrightarrow>
       readAnyFile h file w = catch_read (csv_branch h (filePath_of (name file)) w)) \<and>
    (toLowerCase (name file) = ''pdf'' \<longrightarrow>
       readAnyFile h file w = catch_read (pdf_branch h (filePath_of (name file)) w))"
proof -
  have e: "ext_of (name file) = Some (toLowerCase (name file))"
    using assms by (simp add: ext_of_eq js_split_no_sep)
  show ?thesis
    unfolding readAnyFile_def e
    by (simp add: try_read_txt try_read_csv try_read_pdf)
qed

theorem dotless_name_is_extension_witness:
  "CHR ''.'' \<notin> set ''TXT'' \<and>
   ext_of ''TXT'' = Some ''txt'' \<and>
   fileContent (snd (readAnyFile disk_host \<lparr>name = ''TXT'', mtime = 0\<rparr> (initial disk1)))
     = Some (Txt ''plain'')"
proof -
  have d: "CHR ''.'' \<notin> set (name \<lparr>name = ''TXT'', mtime = 0\<rparr>)"
    by simp
  have l: "toLowerCase ''TXT'' = ''txt''"
    by (simp add: char_eval)
  have t: "catch_read (txt_branch disk_host (filePath_of ''TXT'') (initial disk1))
      = (Unknown, (initial disk1)\<lparr>fileContent := Some (Txt ''plain'')\<rparr>)"
    by (simp add: catch_read_def txt_branch_def disk_host_def initial_def disk1_def
        filePath_of_def EXPORT_FOLDER_def)
  show ?thesis
    using dotless_name_is_extension [OF d, of disk_host "initial disk1"] l t
    by simp
qed

lemmas disk_eval = disk_host_def initial_def filePath_of_def EXPORT_FOLDER_def

section \<open>Sorting by modification time\<close>

lemma set_insert_sorted: "set (insert_sorted cmp x xs) = insert x (set xs)"
  by (induction xs) auto

lemma newest_first_insert:
  "newest_first xs \<Longrightarrow> newest_first (insert_sorted by_mtime x xs)"
  unfolding newest_first_def
  by (induction xs) (auto simp: set_insert_sorted by_mtime_def)

lemma newest_first_js_sort: "newest_first (js_sort by_mtime xs)"
proof (induction xs)
  case Nil
  show ?case by (simp add: newest_first_def)
next
  case (Cons x xs)
  then show ?case by (simp add: newest_first_insert)
qed

lemma filter_insert_sorted:
  "filter (\<lambda>f. mtime f = t) (insert_sorted by_mtime x xs) = filter (\<lambda>f. mtime f = t) (x # xs)"
  by (induction xs) (auto simp: by_mtime_def)

lemma filter_js_sort:
  "filter (\<lambda>f. mtime f = t) (js_sort by_mtime xs) = filter (\<lambda>f. mtime f = t) xs"
  by (induction xs) (simp_all add: filter_insert_sorted)

lemma set_js_sort: "set (js_sort cmp xs) = set xs"
  by (induction xs) (simp_all add: set_insert_sorted)

lemma promise_all_rejects:
  "e \<in> set es \<Longrightarrow> f e = Inl err \<Longrightarrow> \<exists>err'. promise_all (map f es) = Inl err'"
proof (induction es)
  case Nil
  then show ?case by simp
next
  case (Cons a es)
  show ?case
  proof (cases "f a")
    case (Inl x)
    then show ?thesis by simp
  next
    case (Inr v)
    with Cons show ?thesis by (cases "e = a") auto
  qed
qed

lemma promise_all_stat:
  "\<forall>e \<in> set entries. isFile e \<longrightarrow> \<not> stat_fails h d e \<Longrightarrow>
   \<exists>vs. promise_all (map (stat_entry h d) entries) = Inr vs \<and>
     filter_Boolean vs = enumerated h d entries"
proof (induction entries)
  case Nil
  show ?case by (simp add: enumerated_def)
next
  case (Cons a entries)
  then obtain vs where vs: "promise_all (map (stat_entry h d) entries) = Inr vs"
      "filter_Boolean vs = enumerated h d entries"
    by auto
  show ?case
  proof (cases "isFile a")
    case False
    then have "stat_entry h d a = Inr None"
      by (simp add: stat_entry_def)
    then show ?thesis using vs False by (simp add: enumerated_def)
  next
    case True
    with Cons.prems obtain stats where "stat_h h d (filePath_of (entry_name a)) = Inr stats"
      by (auto simp: stat_fails_def split: sum.splits)
    with True have "stat_entry h d a =
        Inr (Some \<lparr>name = entry_name a, mtime = entry_mtime h d a\<rparr>)"
      by (simp add: stat_entry_def entry_mtime_def)
    then show ?thesis using vs True by (simp add: enumerated_def)
  qed
qed

lemma loadFiles_ok:
  assumes "isTauri h" and "readDir_h h (fs w) EXPORT_FOLDER = Inr entries"
    and "\<forall>e \<in> set entries. isFile e \<longrightarrow> \<not> stat_fails h (fs w) e"
  shows "loadFiles h w =
    w\<lparr>loading := False, files := js_sort by_mtime (enumerated h (fs w) entries)\<rparr>"
proof -
  obtain vs where vs: "promise_all (map (stat_entry h (fs w)) entries) = Inr vs"
      "filter_Boolean vs = enumerated h (fs w) entries"
    using promise_all_stat [OF assms(3)] by auto
  show ?thesis
    using assms(1,2) vs by (simp add: loadFiles_def try_list_def)
qed

lemma loadFiles_rejected:
  assumes "isTauri h" and "readDir_h h (fs w) EXPORT_FOLDER = Inr entries"
    and "e \<in> set entries" and "isFile e" and "stat_fails h (fs w) e"
  shows "loadFiles h w =
    w\<lparr>loading := False, console := console w @ [''Error listing files''], files := []\<rparr>"
proof -
  from assms(4,5) obtain err where "stat_entry h (fs w) e = Inl err"
    by (auto simp: stat_entry_def stat_fails_def split: sum.splits)
  with assms(3) obtain err' where "promise_all (map (stat_entry h (fs w)) entries) = Inl err'"
    using promise_all_rejects by metis
  then show ?thesis
    using assms(1,2) by (simp add: loadFiles_def try_list_def)
qed

lemma try_list_Done:
  "try_list h w = Done w' \<Longrightarrow> \<exists>xs. files w' = js_sort by_mtime xs"
  by (auto simp: try_list_def split: sum.splits)

lemma newest_first_loadFiles: "isTauri h \<Longrightarrow> newest_first (files (loadFiles h w))"
proof -
  assume t: "isTauri h"
  show ?thesis
  proof (cases "try_list h (w\<lparr>loading := True\<rparr>)")
    case (Done w')
    then obtain xs where "files w' = js_sort by_mtime xs"
      using try_list_Done by blast
    then show ?thesis
      using t Done by (simp add: loadFiles_def newest_first_js_sort)
  next
    case (Thrown w' e)
    then show ?thesis
      using t by (simp add: loadFiles_def newest_first_def)
  qed
qed

text \<open>
  C3. The catalog that \<^verbatim>\<open>loadFiles\<close> leaves is in descending order of modification
  time. When the folder was read and every file's metadata was fetched, the entries
  of any one modification time stand in the catalog in the order in which the
  directory enumeration gave them: the sort is stable.
\<close>

theorem catalog_sorted_stable:
  assumes "isTauri h"
  shows "newest_first (files (loadFiles h w)) \<and>
    (readDir_h h (fs w) EXPORT_FOLDER = Inr entries \<and>
     (\<forall>e \<in> set entries. isFile e \<longrightarrow> \<not> stat_fails h (fs w) e) \<longrightarrow>
       (\<forall>t. filter (\<lambda>f. mtime f = t) (files (loadFiles h w))
          = filter (\<lambda>f. mtime f = t) (enumerated h (fs w) entries)))"
proof (intro conjI impI allI)
  show "newest_first (files (loadFiles h w))"
    using assms by (rule newest_first_loadFiles)
next
  fix t
  assume a: "readDir_h h (fs w) EXPORT_FOLDER = Inr entries \<and>
     (\<forall>e \<in> set entries. isFile e \<longrightarrow> \<not> stat_fails h (fs w) e)"
  then have "loadFiles h w =
      w\<lparr>loading := False, files := js_sort by_mtime (enumerated h (fs w) entries)\<rparr>"
    using assms by (intro loadFiles_ok) auto
  then show "filter (\<lambda>f. mtime f = t) (files (loadFiles h w))
      = filter (\<lambda>f. mtime f = t) (enumerated h (fs w) entries)"
    by (simp add: filter_js_sort)
qed


lemma readDir_disk1: "readDir_h disk_host disk1 EXPORT_FOLDER = Inr entries1"
  by (simp add: disk_eval disk1_def entries1_def)

lemma enumerated_disk1:
  "enumerated disk_host disk1 entries1
   = [\<lparr>name = ''a.txt'', mtime = 100\<rparr>, \<lparr>name = ''b.csv'', mtime = 200\<rparr>,
      \<lparr>name = ''c.pdf'', mtime = 50\<rparr>, \<lparr>name = ''d.txt'', mtime = 100\<rparr>,
      \<lparr>name = ''TXT'', mtime = 0\<rparr>]"
  by (simp add: enumerated_def entry_mtime_def disk_eval disk1_def entries1_def)

lemma stat_disk1:
  "\<forall>e \<in> set entries1. isFile e \<longrightarrow> \<not> stat_fails disk_host disk1 e"
  by (simp add: stat_fails_def disk_eval disk1_def entries1_def)

theorem catalog_sorted_stable_witness:
  "isTauri disk_host \<and>
   newest_first (files (loadFiles disk_host (initial disk1))) \<and>
   filter (\<lambda>f. mtime f = 100) (files (loadFiles disk_host (initial disk1)))
     = [\<lparr>name = ''a.txt'', mtime = 100\<rparr>, \<lparr>name = ''d.txt'', mtime = 100\<rparr>]"
proof -
  have t: "isTauri disk_host" by (simp add: disk_host_def)
  have f: "fs (initial disk1) = disk1" by (simp add: initial_def)
  show ?thesis
    using catalog_sorted_stable [OF t, of "initial disk1" entries1] t readDir_disk1 stat_disk1
    by (simp add: f enumerated_disk1)
qed

section \<open>A metadata fetch that fails\<close>

text \<open>
  C1, as the code has it. \<^verbatim>\<open>loadFiles\<close> joins the metadata fetches of all file
  entries with one \<^verbatim>\<open>Promise.all\<close> inside one \<^verbatim>\<open>try\<close> block. When the fetch fails
  for at least one file entry, the whole listing is given up: the error is logged and
  the catalog is set to the empty list, whatever the other entries are. Only when no
  fetch fails does the catalog hold the file entries of the listing, and then all of
  them.
\<close>

theorem listing_fails_as_a_whole:
  assumes "isTauri h" and "readDir_h h (fs w) EXPORT_FOLDER = Inr entries"
  shows "((\<exists>e \<in> set entries. isFile e \<and> stat_fails h (fs w) e) \<longrightarrow>
      files (loadFiles h w) = [] \<and>
      console (loadFiles h w) = console w @ [''Error listing files'']) \<and>
    ((\<forall>e \<in> set entries. isFile e \<longrightarrow> \<not> stat_fails h (fs w) e) \<longrightarrow>
      set (files (loadFiles h w)) = set (enumerated h (fs w) entries))"
proof (rule conjI; rule impI)
  assume "\<exists>e \<in> set entries. isFile e \<and> stat_fails h (fs w) e"
  then obtain e where "e \<in> set entries" "isFile e" "stat_fails h (fs w) e"
    by auto
  then have "loadFiles h w =
      w\<lparr>loading := False, console := console w @ [''Error listing files''], files := []\<rparr>"
    using assms by (intro loadFiles_rejected)
  then show "files (loadFiles h w) = [] \<and>
      console (loadFiles h w) = console w @ [''Error listing files'']"
    by simp
next
  assume "\<forall>e \<in> set entries. isFile e \<longrightarrow> \<not> stat_fails h (fs w) e"
  then have "loadFiles h w =
      w\<lparr>loading := False, files := js_sort by_mtime (enumerated h (fs w) entries)\<rparr>"
    using assms by (intro loadFiles_ok)
  then show "set (files (loadFiles h w)) = set (enumerated h (fs w) entries)"
    by (simp add: set_js_sort)
qed

lemma readDir_disk2: "readDir_h disk_host disk2 EXPORT_FOLDER = readDir_h disk_host disk1 EXPORT_FOLDER"
  by (simp add: disk_eval disk2_def)

lemma stat_disk2:
  "stat_fails disk_host disk2 \<lparr>entry_name = ''b.csv'', isFile = True\<rparr> \<and>
   \<not> stat_fails disk_host disk2 \<lparr>entry_name = ''a.txt'', isFile = True\<rparr>"
  by (simp add: stat_fails_def disk_eval disk2_def disk1_def)

theorem listing_fails_as_a_whole_witness:
  "isTauri disk_host \<and>
   stat_fails disk_host disk2 \<lparr>entry_name = ''b.csv'', isFile = True\<rparr> \<and>
   files (loadFiles disk_host (initial disk2)) = [] \<and>
   console (loadFiles disk_host (initial disk2)) = [''Error listing files'']"
proof -
  have t: "isTauri disk_host" by (simp add: disk_host_def)
  have r: "readDir_h disk_host (fs (initial disk2)) EXPORT_FOLDER = Inr entries1"
    using readDir_disk1 by (simp add: readDir_disk2 initial_def)
  have m: "\<lparr>entry_name = ''b.csv'', isFile = True\<rparr> \<in> set entries1"
    by (simp add: entries1_def)
  have "\<exists>e \<in> set entries1. isFile e \<and> stat_fails disk_host (fs (initial disk2)) e"
    using m stat_disk2 by (intro bexI [of _ "\<lparr>entry_name = ''b.csv'', isFile = True\<rparr>"]) (simp_all add: initial_def)
  then show ?thesis
    using listing_fails_as_a_whole [OF t r] t stat_disk2
    by (simp add: initial_def)
qed

text \<open>
  The claim as it was stated fails on that folder: the metadata of \<open>a.txt\<close> is
  fetched, that of \<open>b.csv\<close> is not, and the catalog does not hold \<open>a.txt\<close>.
\<close>

theorem listing_keeps_survivors_counterexample:
  "\<not> stat_fails disk_host disk2 \<lparr>entry_name = ''a.txt'', isFile = True\<rparr> \<and>
   stat_fails disk_host disk2 \<lparr>entry_name = ''b.csv'', isFile = True\<rparr> \<and>
   \<lparr>name = ''a.txt'', mtime = 100\<rparr> \<notin> set (files (loadFiles disk_host (initial disk2)))"
proof -
  have "try_list disk_host ((initial disk2)\<lparr>loading := True\<rparr>)
      = Thrown ((initial disk2)\<lparr>loading := True\<rparr>) (HostError ''no metadata'')"
    by (simp add: try_list_def stat_entry_def disk_eval disk2_def disk1_def)
  then have "files (loadFiles disk_host (initial disk2)) = []"
    by (simp add: loadFiles_def disk_host_def)
  then show ?thesis using stat_disk2 by simp
qed

section \<open>Deleting a file\<close>

lemma filter_other_names:
  "distinct (map name xs) \<Longrightarrow> f \<in> set xs \<Longrightarrow>
   filter (\<lambda>g. name g \<noteq> name f) xs = remove1 f xs"
proof (induction xs)
  case Nil
  then show ?case by simp
next
  case (Cons x xs)
  show ?case
  proof (cases "x = f")
    case True
    with Cons.prems have "\<forall>g \<in> set xs. name g \<noteq> name f"
      by (auto simp: image_iff)
    then have "filter (\<lambda>g. name g \<noteq> name f) xs = xs"
      by (simp add: filter_id_conv)
    with True show ?thesis by simp
  next
    case False
    with Cons.prems have f: "f \<in> set xs" by simp
    with Cons.prems have "name x \<noteq> name f"
      by (auto simp: image_iff)
    with Cons f False show ?thesis by simp
  qed
qed

text \<open>
  C6. For an entry \<open>f\<close> of the catalog: when the removal succeeds, \<^verbatim>\<open>deleteFile\<close>
  takes \<open>f\<close> out of the catalog in memory, with no new listing and nothing logged,
  and keeps every entry of another name where it was; in a catalog with one entry per
  name that is every entry but \<open>f\<close>. When the removal fails, the error is logged and
  the catalog is what it was.
\<close>

theorem deleteFile_catalog:
  assumes "isTauri h" and "f \<in> set (files w)"
  shows "(\<forall>d. remove_h h (fs w) (filePath_of (name f)) = Inr d \<longrightarrow>
      f \<notin> set (files (deleteFile h f w)) \<and>
      files (deleteFile h f w) = filter (\<lambda>g. name g \<noteq> name f) (files w) \<and>
      (distinct (map name (files w)) \<longrightarrow> files (deleteFile h f w) = remove1 f (files w)) \<and>
      console (deleteFile h f w) = console w) \<and>
    (\<forall>e. remove_h h (fs w) (filePath_of (name f)) = Inl e \<longrightarrow>
      deleteFile h f w = w\<lparr>console := console w @ [''Error deleting file'']\<rparr> \<and>
      files (deleteFile h f w) = files w)"
proof -
  have r: "filter (\<lambda>g. name g \<noteq> name f) (files w) = remove1 f (files w)"
    if "distinct (map name (files w))"
    using that assms(2) by (rule filter_other_names)
  show ?thesis
    using assms(1) r by (simp add: deleteFile_def)
qed

theorem deleteFile_catalog_witness:
  "isTauri disk_host \<and>
   files (deleteFile disk_host \<lparr>name = ''a.txt'', mtime = 100\<rparr> ((initial disk1)\<lparr>files := catalog1\<rparr>))
     = [\<lparr>name = ''b.csv'', mtime = 200\<rparr>, \<lparr>name = ''gone.txt'', mtime = 70\<rparr>] \<and>
   deleteFile disk_host \<lparr>name = ''gone.txt'', mtime = 70\<rparr> ((initial disk1)\<lparr>files := catalog1\<rparr>)
     = (initial disk1)\<lparr>files := catalog1, console := [''Error deleting file'']\<rparr>"
proof -
  have t: "isTauri disk_host" by (simp add: disk_host_def)
  have m: "\<lparr>name = ''a.txt'', mtime = 100\<rparr> \<in> set (files ((initial disk1)\<lparr>files := catalog1\<rparr>))"
    "\<lparr>name = ''gone.txt'', mtime = 70\<rparr> \<in> set (files ((initial disk1)\<lparr>files := catalog1\<rparr>))"
    by (simp_all add: catalog1_def)
  have d: "distinct (map name (files ((initial disk1)\<lparr>files := catalog1\<rparr>)))"
    by (simp add: catalog1_def)
  have ok: "remove_h disk_host (fs ((initial disk1)\<lparr>files := catalog1\<rparr>)) (filePath_of ''a.txt'')
      = Inr (disk1\<lparr>data := filter (\<lambda>(q, _). q \<noteq> ''NepaliWallet/a.txt'') (data disk1)\<rparr>)"
    by (simp add: disk_eval disk1_def)
  have ko: "remove_h disk_host (fs ((initial disk1)\<lparr>files := catalog1\<rparr>)) (filePath_of ''gone.txt'')
      = Inl (HostError ''no such file'')"
    by (simp add: disk_eval disk1_def)
  have r: "remove1 \<lparr>name = ''a.txt'', mtime = 100\<rparr> catalog1
      = [\<lparr>name = ''b.csv'', mtime = 200\<rparr>, \<lparr>name = ''gone.txt'', mtime = 70\<rparr>]"
    by (simp add: catalog1_def)
  show ?thesis
    using deleteFile_catalog [OF t m(1)] deleteFile_catalog [OF t m(2)] t d ok ko r
    by (auto simp: initial_def)
qed

section \<open>Ensuring the folder\<close>

lemma ensureFolderExists_present:
  "exists_h h (fs w) EXPORT_FOLDER = Inr True \<Longrightarrow> ensureFolderExists h w = w"
  by (simp add: ensureFolderExists_def)

lemma ensureFolderExists_fs:
  assumes "\<forall>d d'. mkdir_h h d EXPORT_FOLDER = Inr d' \<longrightarrow> exists_h h d' EXPORT_FOLDER = Inr True"
  shows "fs (ensureFolderExists h w) = fs w \<or>
    exists_h h (fs (ensureFolderExists h w)) EXPORT_FOLDER = Inr True"
  using assms by (auto simp: ensureFolderExists_def split: sum.splits)

lemma ensureFolderExists_fs_only:
  "fs w = fs w' \<Longrightarrow> fs (ensureFolderExists h w) = fs (ensureFolderExists h w')"
  by (auto simp: ensureFolderExists_def split: sum.splits)

lemma ensureFolderExists_twice:
  assumes "\<forall>d d'. mkdir_h h d EXPORT_FOLDER = Inr d' \<longrightarrow> exists_h h d' EXPORT_FOLDER = Inr True"
  shows "fs (ensureFolderExists h (ensureFolderExists h w)) = fs (ensureFolderExists h w)"
proof -
  consider "fs (ensureFolderExists h w) = fs w"
    | "exists_h h (fs (ensureFolderExists h w)) EXPORT_FOLDER = Inr True"
    using ensureFolderExists_fs [OF assms] by blast
  then show ?thesis
  proof cases
    case 1
    then show ?thesis
      using ensureFolderExists_fs_only [of "ensureFolderExists h w" w h] by simp
  next
    case 2
    then show ?thesis by (simp add: ensureFolderExists_present)
  qed
qed

text \<open>
  C8. Over a host whose \<^verbatim>\<open>mkdir\<close>, when it succeeds, leaves a folder that
  \<^verbatim>\<open>exists\<close> then reports: a call of \<^verbatim>\<open>ensureFolderExists\<close> that finds the folder
  present changes nothing and logs nothing, so a second call in a row does not fail on
  the folder that the first one found or made; and after any number of calls in a row
  the file system is what it was after the first. No call can throw: every rejection
  is caught inside the function.
\<close>

theorem ensureFolderExists_idempotent:
  assumes "\<forall>d d'. mkdir_h h d EXPORT_FOLDER = Inr d' \<longrightarrow> exists_h h d' EXPORT_FOLDER = Inr True"
  shows "(exists_h h (fs w) EXPORT_FOLDER = Inr True \<longrightarrow> ensureFolderExists h w = w) \<and>
    (exists_h h (fs (ensureFolderExists h w)) EXPORT_FOLDER = Inr True \<longrightarrow>
       ensureFolderExists h (ensureFolderExists h w) = ensureFolderExists h w) \<and>
    fs ((ensureFolderExists h ^^ Suc n) w) = fs (ensureFolderExists h w)"
proof -
  have "fs ((ensureFolderExists h ^^ Suc n) w) = fs (ensureFolderExists h w)"
  proof (induction n)
    case 0
    show ?case by simp
  next
    case (Suc n)
    have "fs ((ensureFolderExists h ^^ Suc (Suc n)) w)
        = fs (ensureFolderExists h ((ensureFolderExists h ^^ Suc n) w))"
      by simp
    also have "\<dots> = fs (ensureFolderExists h (ensureFolderExists h w))"
      using Suc by (rule ensureFolderExists_fs_only)
    also have "\<dots> = fs (ensureFolderExists h w)"
      using assms by (rule ensureFolderExists_twice)
    finally show ?case .
  qed
  then show ?thesis
    by (simp add: ensureFolderExists_present)
qed

theorem ensureFolderExists_idempotent_witness:
  "ensureFolderExists disk_host (initial disk0) = (initial disk0)\<lparr>fs := disk0\<lparr>folders := [''NepaliWallet'']\<rparr>\<rparr> \<and>
   ensureFolderExists disk_host (ensureFolderExists disk_host (initial disk0))
     = ensureFolderExists disk_host (initial disk0) \<and>
   fs ((ensureFolderExists disk_host ^^ Suc 2) (initial disk0)) = disk0\<lparr>folders := [''NepaliWallet'']\<rparr>"
proof -
  have mk: "\<forall>d d'. mkdir_h disk_host d EXPORT_FOLDER = Inr d' \<longrightarrow>
      exists_h disk_host d' EXPORT_FOLDER = Inr True"
    by (auto simp: disk_host_def)
  have e: "ensureFolderExists disk_host (initial disk0)
      = (initial disk0)\<lparr>fs := disk0\<lparr>folders := [''NepaliWallet'']\<rparr>\<rparr>"
    by (simp add: ensureFolderExists_def disk_eval disk0_def)
  have x: "exists_h disk_host (fs (ensureFolderExists disk_host (initial disk0))) EXPORT_FOLDER = Inr True"
    unfolding e by (simp add: disk_eval)
  show ?thesis
    using ensureFolderExists_idempotent [OF mk, of "initial disk0" 2] e x
    by simp
qed

section \<open>Blob URLs\<close>

lemma txt_branch_blobs:
  "catch_read (txt_branch h p w) = (r, w') \<Longrightarrow> pdfUrl w' = pdfUrl w \<and> blobStore w' = blobStore w"
  by (auto simp: catch_read_def txt_branch_def split: sum.splits)

lemma csv_branch_blobs:
  "catch_read (csv_branch h p w) = (r, w') \<Longrightarrow> pdfUrl w' = pdfUrl w \<and> blobStore w' = blobStore w"
  by (auto simp: catch_read_def csv_branch_def split: sum.splits)

lemma pdf_branch_blobs:
  "catch_read (pdf_branch h p w) = (r, w') \<Longrightarrow>
   pdfUrl w' = pdfUrl w \<and> blobStore w' = blobStore w \<or>
   (\<exists>blob. blobStore w' = blobStore w @ [(pdfUrl w', blob)])"
  by (auto simp: catch_read_def pdf_branch_def createObjectURL_def Let_def split: sum.splits)

lemma readAnyFile_blobs:
  "pdfUrl (snd (readAnyFile h f w)) = pdfUrl w \<and> blobStore (snd (readAnyFile h f w)) = blobStore w \<or>
   (\<exists>blob. blobStore (snd (readAnyFile h f w))
      = blobStore w @ [(pdfUrl (snd (readAnyFile h f w)), blob)])"
proof (cases "classify_suffix (toLowerCase (suffix_after_last_dot (name f)))")
  case Text
  then show ?thesis
    using txt_branch_blobs [of h "filePath_of (name f)" w]
    by (cases "catch_read (txt_branch h (filePath_of (name f)) w)")
      (simp add: readAnyFile_dispatch)
next
  case Tabular
  then show ?thesis
    using csv_branch_blobs [of h "filePath_of (name f)" w]
    by (cases "catch_read (csv_branch h (filePath_of (name f)) w)")
      (simp add: readAnyFile_dispatch)
next
  case BinaryResource
  then show ?thesis
    using pdf_branch_blobs [of h "filePath_of (name f)" w]
    by (cases "catch_read (pdf_branch h (filePath_of (name f)) w)")
      (simp add: readAnyFile_dispatch)
next
  case Unsupported
  then show ?thesis by (simp add: readAnyFile_dispatch)
qed

lemma openFile_pdf:
  assumes "ext_of (name f) = Some ''pdf''"
    and "readFile_h h (fs w) (filePath_of (name f)) = Inr (Bytes b)"
  shows "openFile h f w =
    w\<lparr>pdfUrl := ''blob:'' @ replicate (urlCount w) (CHR ''1''), fileContent := None,
      fileName := name f,
      blobStore := blobStore w @ [(''blob:'' @ replicate (urlCount w) (CHR ''1''), b, ''application/pdf'')],
      urlCount := Suc (urlCount w)\<rparr>"
  using assms
  by (simp add: openFile_def readAnyFile_def try_read_pdf pdf_branch_def normalize_binary_def
      createObjectURL_def catch_read_def Let_def)

lemma openFile_blobs:
  "pdfUrl (openFile h f w) = '''' \<and> blobStore (openFile h f w) = blobStore w \<or>
   (\<exists>blob. blobStore (openFile h f w) = blobStore w @ [(pdfUrl (openFile h f w), blob)])"
  using readAnyFile_blobs [of h f "w\<lparr>pdfUrl := [], fileContent := None, fileName := name f\<rparr>"]
  by (simp add: openFile_def)

lemma step_blobs: "\<exists>new. blobStore (step h a w) = blobStore w @ new"
proof (cases a)
  case (Open f)
  then show ?thesis using openFile_blobs [of h f w] by auto
next
  case Close
  then show ?thesis by (simp add: closePreview_def)
qed

lemma run_blobs: "\<exists>new. blobStore (run h as w) = blobStore w @ new"
proof (induction as arbitrary: w)
  case Nil
  show ?case by simp
next
  case (Cons a as)
  obtain n1 where n1: "blobStore (step h a w) = blobStore w @ n1"
    using step_blobs by blast
  obtain n2 where "blobStore (run h as (step h a w)) = blobStore (step h a w) @ n2"
    using Cons.IH by blast
  with n1 show ?case by simp
qed

text \<open>
  C2, as the code has it. The page holds at most one blob URL, in \<^verbatim>\<open>pdfUrl\<close>:
  \<^verbatim>\<open>openFile\<close> empties it before \<^verbatim>\<open>readAnyFile\<close> creates a new URL, and closing the
  preview empties it. No URL is ever released, though, for the page never calls
  \<^verbatim>\<open>URL.revokeObjectURL\<close>: over any sequence of openings and closings the
  store of live URLs keeps all it had, closing leaves it as it is, and an opening
  either leaves it as it is or adds the one URL it puts into \<^verbatim>\<open>pdfUrl\<close>.
\<close>

theorem blob_urls_are_never_released:
  "(\<exists>new. blobStore (run h as w) = blobStore w @ new) \<and>
   pdfUrl (closePreview w) = [] \<and>
   blobStore (closePreview w) = blobStore w \<and>
   (pdfUrl (openFile h f w) = [] \<and> blobStore (openFile h f w) = blobStore w \<or>
    (\<exists>blob. blobStore (openFile h f w) = blobStore w @ [(pdfUrl (openFile h f w), blob)]))"
  using run_blobs [of h as w] openFile_blobs [of h f w]
  by (simp add: closePreview_def)

text \<open>
  The claim as it was stated fails when one PDF file is opened after another: both
  URLs are live at the end, the first one under no name the page still holds.
\<close>

theorem one_live_blob_url_counterexample:
  "map fst (blobStore (run disk_host
      [Open \<lparr>name = ''c.pdf'', mtime = 50\<rparr>, Open \<lparr>name = ''c.pdf'', mtime = 50\<rparr>, Close]
      (initial disk1)))
   = [''blob:'', ''blob:1'']"
proof -
  have e: "ext_of (name \<lparr>name = ''c.pdf'', mtime = 50\<rparr>) = Some ''pdf''"
    by (simp add: ext_of_def pop_def char_eval)
  have r: "fs w = disk1 \<Longrightarrow>
      readFile_h disk_host (fs w) (filePath_of (name \<lparr>name = ''c.pdf'', mtime = 50\<rparr>))
        = Inr (Bytes [37, 80, 68, 70])" for w :: "disk world"
    by (simp add: disk_eval disk1_def)
  have o1: "openFile disk_host \<lparr>name = ''c.pdf'', mtime = 50\<rparr> (initial disk1)
      = (initial disk1)\<lparr>pdfUrl := ''blob:'', fileName := ''c.pdf'',
          blobStore := [(''blob:'', [37, 80, 68, 70], ''application/pdf'')], urlCount := 1\<rparr>"
    using openFile_pdf [OF e r, of "initial disk1"] by (simp add: initial_def)
  have o2: "openFile disk_host \<lparr>name = ''c.pdf'', mtime = 50\<rparr>
        ((initial disk1)\<lparr>pdfUrl := ''blob:'', fileName := ''c.pdf'',
          blobStore := [(''blob:'', [37, 80, 68, 70], ''application/pdf'')], urlCount := 1\<rparr>)
      = (initial disk1)\<lparr>pdfUrl := ''blob:1'', fileName := ''c.pdf'',
          blobStore := [(''blob:'', [37, 80, 68, 70], ''application/pdf''),
                        (''blob:1'', [37, 80, 68, 70], ''application/pdf'')], urlCount := 2\<rparr>"
    using openFile_pdf [OF e r, of "(initial disk1)\<lparr>pdfUrl := ''blob:'', fileName := ''c.pdf'',
          blobStore := [(''blob:'', [37, 80, 68, 70], ''application/pdf'')], urlCount := 1\<rparr>"]
    by (simp add: initial_def)
  have "run disk_host
      [Open \<lparr>name = ''c.pdf'', mtime = 50\<rparr>, Open \<lparr>name = ''c.pdf'', mtime = 50\<rparr>, Close]
      (initial disk1)
    = closePreview (openFile disk_host \<lparr>name = ''c.pdf'', mtime = 50\<rparr>
        (openFile disk_host \<lparr>name = ''c.pdf'', mtime = 50\<rparr> (initial disk1)))"
    by simp
  then show ?thesis
    unfolding o1 o2 by (simp add: closePreview_def)
qed

section \<open>Decoding what was encoded\<close>

lemma unat_byte: "unat (a :: byte) < 256"
  using unsigned_less [of a, where ?'a = nat] by simp

lemma sextets_of_24: 
  "(n::nat) div 262144 * 262144 + n div 4096 mod 64 * 4096 + n div 64 mod 64 * 64 + n mod 64 = n"
proof -
  have a1: "n div 64 * 64 + n mod 64 = n" by simp
  have a2: "n div 4096 * 64 + n div 64 mod 64 = n div 64"
    using div_mult_mod_eq [of "n div 64" 64] by (simp add: div_mult2_eq [symmetric])
  have a3: "n div 262144 * 64 + n div 4096 mod 64 = n div 4096"
    using div_mult_mod_eq [of "n div 4096" 64] by (simp add: div_mult2_eq [symmetric])
  have "n = (n div 4096 * 64 + n div 64 mod 64) * 64 + n mod 64"
    using a1 a2 by simp
  also have "\<dots> = ((n div 262144 * 64 + n div 4096 mod 64) * 64 + n div 64 mod 64) * 64 + n mod 64"
    using a3 by simp
  finally show ?thesis by (simp add: algebra_simps)
qed

lemma sextets_of_18:
  "(n::nat) div 4096 * 4096 + n div 64 mod 64 * 64 + n mod 64 = n"
proof -
  have a1: "n div 64 * 64 + n mod 64 = n" by simp
  have a2: "n div 4096 * 64 + n div 64 mod 64 = n div 64"
    using div_mult_mod_eq [of "n div 64" 64] by (simp add: div_mult2_eq [symmetric])
  have "n = (n div 4096 * 64 + n div 64 mod 64) * 64 + n mod 64"
    using a1 a2 by simp
  then show ?thesis by (simp add: algebra_simps)
qed

lemma bytes_of_24:
  assumes "b < 256" and "c < 256"
  shows "(a * 65536 + b * 256 + c) div 65536 = (a::nat)"
    and "(a * 65536 + b * 256 + c) div 256 mod 256 = b"
    and "(a * 65536 + b * 256 + c) mod 256 = c"
proof -
  show "(a * 65536 + b * 256 + c) div 65536 = a"
    using assms by simp
  have "(a * 65536 + b * 256 + c) div 256 = a * 256 + b"
    using assms by simp
  then show "(a * 65536 + b * 256 + c) div 256 mod 256 = b"
    using assms by simp
  have "(c + (a * 256 + b) * 256) mod 256 = c mod 256"
    by (rule mod_mult_self1)
  also have "c + (a * 256 + b) * 256 = a * 65536 + b * 256 + c"
    by simp
  finally show "(a * 65536 + b * 256 + c) mod 256 = c"
    using assms(2) by simp
qed

lemma bytes_of_18:
  assumes "b < 256"
  shows "(a * 1024 + b * 4) div 1024 = (a::nat)"
    and "(a * 1024 + b * 4) div 4 mod 256 = b"
proof -
  show "(a * 1024 + b * 4) div 1024 = a"
    using assms by simp
  have "(a * 1024 + b * 4) div 4 = a * 256 + b"
    by simp
  then show "(a * 1024 + b * 4) div 4 mod 256 = b"
    using assms by simp
qed

lemma encode_sextets_bound: "v \<in> set (encode_sextets b) \<Longrightarrow> v < 64"
proof (induction b arbitrary: v rule: encode_sextets.induct)
  case (1 a b c r)
  have "unat a < 256" "unat b < 256" "unat c < 256"
    by (rule unat_byte)+
  then have "(unat a * 65536 + unat b * 256 + unat c) div 262144 < 64"
    by simp
  with 1 show ?case by (auto simp: Let_def)
next
  case (2 a b)
  have "unat a < 256" "unat b < 256"
    by (rule unat_byte)+
  then have "(unat a * 1024 + unat b * 4) div 4096 < 64"
    by simp
  with 2 show ?case by (auto simp: Let_def)
next
  case (3 a)
  have "unat a < 256"
    by (rule unat_byte)
  then have "unat a * 16 div 64 < 64"
    by simp
  with 3 show ?case by (auto simp: Let_def)
next
  case 4
  then show ?case by simp
qed

lemma decode_encode_sextets: "decode_sextets (encode_sextets b) = map unat b"
proof (induction b rule: encode_sextets.induct)
  case (1 a b c r)
  have lt: "unat b < 256" "unat c < 256"
    by (rule unat_byte)+
  show ?case
    using 1 by (simp add: Let_def sextets_of_24 bytes_of_24 [OF lt])
next
  case (2 a b)
  have lt: "unat b < 256"
    by (rule unat_byte)
  show ?case
    using lt by (simp add: Let_def sextets_of_18 bytes_of_18 [OF lt])
next
  case (3 a)
  have "unat a * 16 div 64 * 64 + unat a * 16 mod 64 = unat a * 16"
    by (rule div_mult_mod_eq)
  then have "(unat a * 16 div 64 * 64 + unat a * 16 mod 64) div 16 = unat a"
    by simp
  then show ?case
    by (simp add: Let_def)
next
  case 4
  show ?case by simp
qed

lemma length_base64:
  "(length (encode_sextets b) + length (padding b)) mod 4 = 0 \<and>
   length (encode_sextets b) mod 4 \<noteq> 1"
  by (induction b rule: encode_sextets.induct) (simp_all add: Let_def)

lemma padding_cases:
  "padding b = [] \<or> padding b = ''='' \<and> encode_sextets b \<noteq> [] \<or> padding b = ''==''"
  by (induction b rule: encode_sextets.induct) (auto simp: Let_def)

lemma b64_val_char: "v < 64 \<Longrightarrow> b64_val (b64_char v) = Some v"
  by (simp add: b64_val_def b64_char_def Let_def) arith

lemma b64_char_plain:
  "v < 64 \<Longrightarrow> b64_char v \<noteq> CHR ''='' \<and> \<not> is_ascii_space (b64_char v)"
proof -
  assume v: "v < 64"
  have "(of_char (b64_char v) :: nat) \<noteq> 61 \<and> (of_char (b64_char v) :: nat) \<notin> {9, 10, 12, 13, 32}"
    using v by (simp add: b64_char_def) arith
  moreover have "(of_char (CHR ''='') :: nat) = 61" by simp
  ultimately show ?thesis
    unfolding is_ascii_space_def by metis
qed

lemma those_vals_chars:
  "\<forall>v \<in> set vs. v < 64 \<Longrightarrow> those_vals (map (\<lambda>v. b64_val (b64_char v)) vs) = Some vs"
  by (induction vs) (simp_all add: b64_val_char)

lemma eq_not_space: "\<not> is_ascii_space (CHR ''='')"
proof -
  have "(of_char (CHR ''='') :: nat) = 61" by simp
  then show ?thesis unfolding is_ascii_space_def by simp
qed

lemma filter_space_padding:
  "\<forall>c \<in> set p. c = CHR ''='' \<Longrightarrow> filter (\<lambda>c. \<not> is_ascii_space c) p = p"
  by (induction p) (simp_all add: eq_not_space)

lemma filter_space_alphabet:
  "\<forall>v \<in> set vs. v < 64 \<Longrightarrow>
   filter (\<lambda>c. \<not> is_ascii_space c) (map b64_char vs) = map b64_char vs"
  by (induction vs) (simp_all add: b64_char_plain)

lemma filter_space_chars:
  assumes "\<forall>v \<in> set vs. v < 64" and "\<forall>c \<in> set p. c = CHR ''=''"
  shows "filter (\<lambda>c. \<not> is_ascii_space c) (map b64_char vs @ p) = map b64_char vs @ p"
  using assms by (simp only: filter_append filter_space_padding filter_space_alphabet)

lemma strip_padding_none:
  assumes "xs = [] \<or> last xs \<noteq> CHR ''=''"
  shows "strip_padding xs = xs"
proof (cases "rev xs")
  case Nil
  then show ?thesis by (simp add: strip_padding_def)
next
  case (Cons a r)
  then have "xs \<noteq> []" "last xs = a"
    by (auto simp: hd_rev [symmetric])
  with assms have "a \<noteq> CHR ''=''" by simp
  with Cons show ?thesis
    by (simp add: strip_padding_def split: list.split)
qed

lemma strip_padding_one:
  assumes "xs \<noteq> []" and "last xs \<noteq> CHR ''=''" and "Suc (length xs) mod 4 = 0"
  shows "strip_padding (xs @ [CHR ''='']) = xs"
proof -
  obtain b r where r: "rev xs = b # r"
    using assms(1) by (cases "rev xs") auto
  then have "last xs = b"
    by (simp add: hd_rev [symmetric])
  with assms(2) have "b \<noteq> CHR ''=''" by simp
  moreover have "xs = rev (b # r)"
    using r by (metis rev_rev_ident)
  ultimately show ?thesis
    using assms(3) r by (simp add: strip_padding_def)
qed

lemma strip_padding_two:
  assumes "Suc (Suc (length xs)) mod 4 = 0"
  shows "strip_padding (xs @ [CHR ''='', CHR ''='']) = xs"
  using assms by (simp add: strip_padding_def)

lemma strip_padding_base64:
  "strip_padding (base64 b) = map b64_char (encode_sextets b)"
proof -
  let ?xs = "map b64_char (encode_sextets b)"
  have len: "(length ?xs + length (padding b)) mod 4 = 0"
    using length_base64 [of b] by simp
  have l: "?xs = [] \<or> last ?xs \<noteq> CHR ''=''"
  proof (cases "encode_sextets b = []")
    case True
    then show ?thesis by simp
  next
    case False
    then have "last (encode_sextets b) < 64"
      using encode_sextets_bound [of "last (encode_sextets b)" b] by simp
    then show ?thesis
      using False by (simp add: last_map b64_char_plain)
  qed
  consider "padding b = []" | "padding b = ''=''" "encode_sextets b \<noteq> []" | "padding b = ''==''"
    using padding_cases by blast
  then show ?thesis
  proof cases
    case 1
    then show ?thesis
      using l by (simp add: base64_def strip_padding_none)
  next
    case 2
    then show ?thesis
      using l len by (simp add: base64_def strip_padding_one)
  next
    case 3
    then show ?thesis
      using len by (simp add: base64_def strip_padding_two)
  qed
qed

lemma atob_base64: "atob (base64 b) = Some (map (\<lambda>w. char_of (unat w)) b)"
proof -
  have bound: "\<forall>v \<in> set (encode_sextets b). v < 64"
    by (simp add: encode_sextets_bound)
  have pad: "\<forall>c \<in> set (padding b). c = CHR ''=''"
    using padding_cases [of b] by auto
  have f: "filter (\<lambda>c. \<not> is_ascii_space c) (base64 b) = base64 b"
    unfolding base64_def using bound pad by (rule filter_space_chars)
  have n: "length (map b64_char (encode_sextets b)) mod 4 \<noteq> 1"
    using length_base64 [of b] by simp
  show ?thesis
    using n
    by (simp add: atob_def f strip_padding_base64 those_vals_chars [OF bound]
        decode_encode_sextets comp_def)
qed

lemma copy_codes_from:
  "length arr = length raw \<Longrightarrow> i \<le> length raw \<Longrightarrow>
   copy_codes raw arr i = take i arr @ map (\<lambda>c. of_nat (of_char c)) (drop i raw)"
proof (induction raw arr i rule: copy_codes.induct)
  case (1 raw arr i)
  show ?case
  proof (cases "i < length raw")
    case True
    let ?arr = "arr[i := of_nat (of_char (raw ! i))]"
    have "copy_codes raw arr i = copy_codes raw ?arr (Suc i)"
      using True "1.prems" by (subst copy_codes.simps) simp
    also have "\<dots> = take (Suc i) ?arr @ map (\<lambda>c. of_nat (of_char c)) (drop (Suc i) raw)"
      using "1.IH" True "1.prems" by simp
    also have "take (Suc i) ?arr = take i arr @ [of_nat (of_char (raw ! i))]"
      using True "1.prems" by (simp add: take_Suc_conv_app_nth)
    also have "(take i arr @ [of_nat (of_char (raw ! i))]) @ map (\<lambda>c. of_nat (of_char c)) (drop (Suc i) raw)
        = take i arr @ map (\<lambda>c. of_nat (of_char c)) (drop i raw)"
      using True by (simp add: Cons_nth_drop_Suc [symmetric])
    finally show ?thesis .
  next
    case False
    with "1.prems" show ?thesis
      by (subst copy_codes.simps) simp
  qed
qed

lemma copy_codes_all:
  "copy_codes raw (replicate (length raw) 0) 0 = map (\<lambda>c. of_nat (of_char c)) raw"
  by (simp add: copy_codes_from)

lemma byte_of_char_of: "of_nat (of_char (char_of (unat w))) = (w :: byte)"
proof -
  have "unat w mod 256 = unat w"
    using unat_byte [of w] by simp
  then show ?thesis by simp
qed

text \<open>
  C7. For every byte sequence \<open>b\<close>, the bytes that the PDF branch hands to the blob
  are \<open>b\<close> itself, whether \<^verbatim>\<open>readFile\<close> answered with \<open>b\<close> as raw bytes or with
  the base64 encoding of \<open>b\<close> as a string: \<^verbatim>\<open>atob\<close> and the copy of the character
  codes undo the encoding. So the PDF branch ends in the same state on a host that
  answers in the one form and on a host that answers in the other.
\<close>

theorem binary_normalization:
  "normalize_binary (Base64 (base64 b)) = normalize_binary (Bytes b) \<and>
   normalize_binary (Bytes b) = Inr b \<and>
   (readFile_h h (fs w) p = Inr (Base64 (base64 b)) \<and> readFile_h h' (fs w) p = Inr (Bytes b) \<longrightarrow>
      pdf_branch h p w = pdf_branch h' p w)"
proof -
  define raw where "raw = map (\<lambda>w. char_of (unat w)) b"
  have "normalize_binary (Base64 (base64 b)) = Inr (copy_codes raw (replicate (length raw) 0) 0)"
    by (simp add: normalize_binary_def atob_base64 raw_def)
  also have "copy_codes raw (replicate (length raw) 0) 0 = map (\<lambda>c. of_nat (of_char c)) raw"
    by (rule copy_codes_all)
  also have "\<dots> = b"
    unfolding raw_def by (simp add: comp_def byte_of_char_of del: of_char_of)
  finally have n: "normalize_binary (Base64 (base64 b)) = Inr b" .
  have m: "normalize_binary (Bytes b) = Inr b"
    by (simp add: normalize_binary_def)
  show ?thesis
    by (simp add: n m pdf_branch_def)
qed

theorem binary_normalization_witness:
  "readFile_h base64_host disk1 ''NepaliWallet/c.pdf'' = Inr (Base64 (base64 [37, 80, 68, 70])) \<and>
   readFile_h disk_host disk1 ''NepaliWallet/c.pdf'' = Inr (Bytes [37, 80, 68, 70]) \<and>
   normalize_binary (Base64 (base64 [37, 80, 68, 70])) = Inr [37, 80, 68, 70] \<and>
   pdf_branch base64_host ''NepaliWallet/c.pdf'' (initial disk1)
     = pdf_branch disk_host ''NepaliWallet/c.pdf'' (initial disk1)"
proof -
  have a: "readFile_h base64_host (fs (initial disk1)) ''NepaliWallet/c.pdf''
      = Inr (Base64 (base64 [37, 80, 68, 70]))"
    by (simp add: base64_host_def disk_host_def initial_def disk1_def)
  have b: "readFile_h disk_host (fs (initial disk1)) ''NepaliWallet/c.pdf'' = Inr (Bytes [37, 80, 68, 70])"
    by (simp add: disk_host_def initial_def disk1_def)
  show ?thesis
    using binary_normalization
      [of "[37, 80, 68, 70]" base64_host "initial disk1" "''NepaliWallet/c.pdf''" disk_host] a b
    by (simp add: initial_def)
qed

section \<open>Previewing a CSV file\<close>

lemma js_split_join:
  "xs \<noteq> [] \<Longrightarrow> \<forall>x \<in> set xs. d \<notin> set x \<Longrightarrow> js_split d (join d xs) = xs"
proof (induction d xs rule: join.induct)
  case (1 d)
  then show ?case by simp
next
  case (2 d x)
  then show ?case by (simp add: js_split_no_sep)
next
  case (3 d x y ys)
  then have "js_split d (join d (y # ys)) = y # ys"
    by simp
  moreover have "js_split d x = [x]"
    using 3 by (simp add: js_split_no_sep)
  ultimately show ?case
    by (simp add: js_split_append)
qed

lemma Papa_parse_lines:
  assumes "ls \<noteq> []" and "\<forall>l \<in> set ls. CHR 0x0A \<notin> set l"
    and "filter (\<lambda>l. l \<noteq> []) ls = join (CHR '','') hs # map (join (CHR '','')) rs"
    and "hs \<noteq> []" and "\<forall>c \<in> set hs. CHR '','' \<notin> set c"
    and "\<forall>r \<in> set rs. r \<noteq> [] \<and> (\<forall>c \<in> set r. CHR '','' \<notin> set c)"
  shows "Papa_parse (join (CHR 0x0A) ls) = map (zip hs) rs"
proof -
  have s: "js_split (CHR 0x0A) (join (CHR 0x0A) ls) = ls"
    using assms(1,2) by (rule js_split_join)
  have h: "js_split (CHR '','') (join (CHR '','') hs) = hs"
    using assms(4,5) by (rule js_split_join)
  have r: "map (\<lambda>l. zip hs (js_split (CHR '','') l)) (map (join (CHR '','')) rs) = map (zip hs) rs"
    using assms(6) by (induction rs) (simp_all add: js_split_join)
  show ?thesis
    unfolding Papa_parse_def s assms(3) by (simp only: list.case h r)
qed

text \<open>
  C5. Take a \<open>.csv\<close> file whose text is a sequence of lines of which the non-empty
  ones are a header line of column names \<open>hs\<close> and then \<open>m\<close> data rows \<open>rs\<close>, each a
  line of cells. Its preview holds exactly \<open>m\<close> records, in the order of the rows: the
  record of a row pairs each header name with the cell of the same column, in column
  order, the cells as the strings they are; the empty lines leave no record.
\<close>

theorem csv_preview_records:
  assumes "ext_of (name file) = Some ''csv''" and "papaParse h = Papa_parse"
    and "readTextFile_h h (fs w) (filePath_of (name file)) = Inr (join (CHR 0x0A) ls)"
    and "ls \<noteq> []" and "\<forall>l \<in> set ls. CHR 0x0A \<notin> set l"
    and "filter (\<lambda>l. l \<noteq> []) ls = join (CHR '','') hs # map (join (CHR '','')) rs"
    and "hs \<noteq> []" and "\<forall>c \<in> set hs. CHR '','' \<notin> set c"
    and "\<forall>r \<in> set rs. r \<noteq> [] \<and> (\<forall>c \<in> set r. CHR '','' \<notin> set c)"
  shows "fileContent (snd (readAnyFile h file w)) = Some (Csv (map (zip hs) rs)) \<and>
    length (map (zip hs) rs) = length rs"
proof -
  have "Papa_parse (join (CHR 0x0A) ls) = map (zip hs) rs"
    using assms(4-9) by (rule Papa_parse_lines)
  then show ?thesis
    using assms(1-3)
    by (simp add: readAnyFile_def try_read_csv csv_branch_def catch_read_def)
qed

theorem csv_preview_records_witness:
  "ext_of ''b.csv'' = Some ''csv'' \<and>
   readTextFile_h disk_host disk1 ''NepaliWallet/b.csv''
     = Inr (join (CHR 0x0A) [''name,age'', ''Alice,30'', '''', ''Bob,25'', '''']) \<and>
   fileContent (snd (readAnyFile disk_host \<lparr>name = ''b.csv'', mtime = 200\<rparr> (initial disk1)))
     = Some (Csv [ [(''name'', ''Alice''), (''age'', ''30'')], [(''name'', ''Bob''), (''age'', ''25'')] ])"
proof -
  have e: "ext_of (name \<lparr>name = ''b.csv'', mtime = 200\<rparr>) = Some ''csv''"
    by (simp add: ext_of_def pop_def char_eval)
  have p: "papaParse disk_host = Papa_parse"
    by (simp add: disk_host_def)
  have r: "readTextFile_h disk_host (fs (initial disk1)) (filePath_of (name \<lparr>name = ''b.csv'', mtime = 200\<rparr>))
      = Inr (join (CHR 0x0A) [''name,age'', ''Alice,30'', '''', ''Bob,25'', ''''])"
    by (simp add: disk_eval disk1_def)
  have n: "[''name,age'', ''Alice,30'', '''', ''Bob,25'', ''''] \<noteq> []"
    by simp
  have l: "\<forall>l \<in> set [''name,age'', ''Alice,30'', '''', ''Bob,25'', '''']. CHR 0x0A \<notin> set l"
    by simp
  have f: "filter (\<lambda>l. l \<noteq> []) [''name,age'', ''Alice,30'', '''', ''Bob,25'', '''']
      = join (CHR '','') [''name'', ''age''] # map (join (CHR '','')) [ [''Alice'', ''30''], [''Bob'', ''25''] ]"
    by simp
  have hn: "[''name'', ''age''] \<noteq> []"
    by simp
  have hc: "\<forall>c \<in> set [''name'', ''age'']. CHR '','' \<notin> set c"
    by simp
  have rc: "\<forall>r \<in> set [ [''Alice'', ''30''], [''Bob'', ''25''] ]. r \<noteq> [] \<and> (\<forall>c \<in> set r. CHR '','' \<notin> set c)"
    by simp
  show ?thesis
    using csv_preview_records [OF e p r n l f hn hc rc] e r
    by (simp add: initial_def filePath_of_def EXPORT_FOLDER_def)
qed

end
